theory Spec2Isabelle
  imports Complex_Main "HOL-Library.Stream"
begin

section \<open>Epsilon-greedy A/B testing: the model of \<^verbatim>\<open>ab_testing.py\<close>\<close>

text \<open>
  The module has two classes. \<^verbatim>\<open>RandomEvent\<close> is one arm: its true win rate, the running
  estimate of it, the number of pulls and the history of estimates. \<^verbatim>\<open>Experiment\<close> holds the
  configuration and three counters, and \<^verbatim>\<open>run\<close> drives the epsilon-greedy loop.

  Three things the Python relies on are made explicit here.
  \<^item> Floating point. A Python float operation is the exact operation on the reals followed by
    rounding to the nearest double. Every definition takes that rounding function as its first
    argument \<open>rnd\<close> and applies it after each float operation of the source, in the source's
    order. \<open>rnd = (\<lambda>x. x)\<close> is exact arithmetic; \<open>binary64\<close> below is round-to-nearest-even
    on doubles (overflow to infinity and NaN are outside the model).
  \<^item> Randomness. Python's \<^verbatim>\<open>random\<close> module and \<^verbatim>\<open>numpy.random\<close> each have a global generator.
    A generator is the stream of the uniform draws it will still produce; a draw takes the head
    and leaves the tail.
  \<^item> Exceptions. A raise is the left injection of a sum type.
\<close>

subsection \<open>Library behaviour the module depends on\<close>

datatype error = ValueError | IndexError | ZeroDivisionError

type_synonym rounding = "real \<Rightarrow> real"

text \<open>
  \<^verbatim>\<open>np.argmax\<close> scans from the left and keeps the first position of the largest value; on an
  empty sequence it raises \<^verbatim>\<open>ValueError\<close>. \<open>argmax_from xs i best bi\<close> is the scan over the
  remaining values \<open>xs\<close>, which start at position \<open>i\<close>, with the best value so far \<open>best\<close>
  found at position \<open>bi\<close>.
\<close>

fun argmax_from :: "real list \<Rightarrow> nat \<Rightarrow> real \<Rightarrow> nat \<Rightarrow> nat" where
  "argmax_from [] i best bi = bi"
| "argmax_from (x # xs) i best bi =
     (if best < x then argmax_from xs (Suc i) x i else argmax_from xs (Suc i) best bi)"

definition np_argmax :: "real list \<Rightarrow> error + nat" where
  "np_argmax xs = (case xs of [] \<Rightarrow> Inl ValueError | x # rest \<Rightarrow> Inr (argmax_from rest 1 x 0))"

text \<open>\<^verbatim>\<open>np.zeros(n)\<close>: an array of \<open>n\<close> zeros; a negative \<open>n\<close> raises \<^verbatim>\<open>ValueError\<close>.\<close>

definition np_zeros :: "int \<Rightarrow> error + real list" where
  "np_zeros n = (if n < 0 then Inl ValueError else Inr (replicate (nat n) 0))"

text \<open>\<^verbatim>\<open>random.random()\<close> and \<^verbatim>\<open>np.random.random()\<close>: the next uniform draw of the generator.\<close>

definition random_random :: "real stream \<Rightarrow> real \<times> real stream" where
  "random_random g = (shd g, stl g)"

text \<open>
  \<^verbatim>\<open>random.choice(range(n))\<close>: an index below \<open>n\<close> chosen by the generator, \<^verbatim>\<open>IndexError\<close> on an
  empty range. The index is read off the next uniform draw \<open>u\<close> as \<open>\<lfloor>u * n\<rfloor>\<close>.
\<close>

definition random_choice :: "nat \<Rightarrow> real stream \<Rightarrow> error + (nat \<times> real stream)" where
  "random_choice n g =
     (if n = 0 then Inl IndexError else Inr (nat \<lfloor>shd g * real n\<rfloor>, stl g))"

subsection \<open>Rounding to a double\<close>

text \<open>
  \<open>rne\<close> rounds a real to the nearest integer, a tie going to the even one. \<open>expo k x\<close> is
  the binary exponent of a positive \<open>x\<close>, that is the \<open>e\<close> with \<open>2^e \<le> x < 2^(e+1)\<close>, found
  in at most \<open>k\<close> halvings or doublings; the exponents of doubles lie between \<open>-1074\<close> and
  \<open>1023\<close>. \<open>binary64\<close> keeps 53 significant bits, and below the normal range the spacing of
  the subnormal numbers.
\<close>

definition rne :: "real \<Rightarrow> int" where
  "rne x =
     (let f = \<lfloor>x\<rfloor>; d = x - of_int f
      in if d < 1 / 2 then f else if 1 / 2 < d then f + 1 else if even f then f else f + 1)"

fun expo :: "nat \<Rightarrow> real \<Rightarrow> int" where
  "expo 0 x = 0"
| "expo (Suc k) x =
     (if 2 \<le> x then expo k (x / 2) + 1 else if x < 1 then expo k (2 * x) - 1 else 0)"

definition binary64 :: rounding where
  "binary64 x =
     (if x = 0 then 0
      else let e = max (expo 1100 \<bar>x\<bar>) (- 1022); q = 2 powi (e - 52)
           in of_int (rne (x / q)) * q)"

subsection \<open>The class \<^verbatim>\<open>RandomEvent\<close>\<close>

record RandomEvent =
  winrate :: real
  estimate :: real
  N :: nat
  history :: "(nat \<times> real) list"

text \<open>\<^verbatim>\<open>__init__\<close>: the estimate and the number of pulls start at 0, the history empty.\<close>

definition RandomEvent_init :: "real \<Rightarrow> RandomEvent" where
  "RandomEvent_init w = \<lparr>winrate = w, estimate = 0, N = 0, history = []\<rparr>"

text \<open>
  \<^verbatim>\<open>update\<close>: \<^verbatim>\<open>self.N += 1; self.estimate += (result - self.estimate) / self.N;
  self.history.append((self.N, self.estimate))\<close>. The subtraction, the division and the addition
  each round.
\<close>

definition update :: "rounding \<Rightarrow> RandomEvent \<Rightarrow> bool \<Rightarrow> RandomEvent" where
  "update rnd ev result =
     (let n = N ev + 1;
          est = rnd (estimate ev + rnd (rnd (of_bool result - estimate ev) / real n))
      in ev\<lparr>N := n, estimate := est, history := history ev @ [(n, est)]\<rparr>)"

text \<open>
  \<^verbatim>\<open>pull\<close>: \<^verbatim>\<open>return np.random.random() < self.winrate\<close>. The model returns the outcome, the
  object as the call leaves it, and the generator after the draw.
\<close>

definition pull :: "RandomEvent \<Rightarrow> real stream \<Rightarrow> bool \<times> RandomEvent \<times> real stream" where
  "pull ev g = (let (u, g') = random_random g in (u < winrate ev, ev, g'))"

subsection \<open>The class \<^verbatim>\<open>Experiment\<close>\<close>

record Experiment =
  probs :: "real list"
  initial_epsilon :: real
  iterations :: int
  num_explored :: nat
  num_exploited :: nat
  num_optimal :: nat

text \<open>\<^verbatim>\<open>__init__\<close> stores the configuration and sets the three counters to 0.\<close>

definition Experiment_init :: "real list \<Rightarrow> real \<Rightarrow> int \<Rightarrow> Experiment" where
  "Experiment_init ps eps n =
     \<lparr>probs = ps, initial_epsilon = eps, iterations = n,
      num_explored = 0, num_exploited = 0, num_optimal = 0\<rparr>"

text \<open>
  \<^verbatim>\<open>epsilon_func(val, t)\<close>: \<^verbatim>\<open>return val / (0.01 * t + 1)\<close>. The literal \<^verbatim>\<open>0.01\<close> is the double
  nearest to \<open>1/100\<close>, the integer \<open>t\<close> is converted to a float, and a float division by zero
  raises \<^verbatim>\<open>ZeroDivisionError\<close>.
\<close>

definition epsilon_func :: "rounding \<Rightarrow> real \<Rightarrow> int \<Rightarrow> error + real" where
  "epsilon_func rnd val t =
     (let d = rnd (rnd (rnd (1 / 100) * rnd (of_int t)) + 1)
      in if d = 0 then Inl ZeroDivisionError else Inr (rnd (val / d)))"

text \<open>
  The state of a call of \<^verbatim>\<open>run\<close>: the object \<^verbatim>\<open>self\<close>, the locals \<^verbatim>\<open>events\<close> and
  \<^verbatim>\<open>results\<close>, and the two generators.
\<close>

record run_state =
  self :: Experiment
  events :: "RandomEvent list"
  results :: "real list"
  py_gen :: "real stream"
  np_gen :: "real stream"

text \<open>
  The choice of the arm in iteration \<open>t\<close> (lines 94 to 100): the index chosen, whether it was
  an exploration, and the generator of \<^verbatim>\<open>random\<close> after its draws.
\<close>

definition selected_event ::
  "rounding \<Rightarrow> real \<Rightarrow> RandomEvent list \<Rightarrow> real stream \<Rightarrow> nat \<Rightarrow> error + (nat \<times> bool \<times> real stream)"
where
  "selected_event rnd eps0 evs g t =
     (case epsilon_func rnd eps0 (int t) of
        Inl e \<Rightarrow> Inl e
      | Inr epsilon \<Rightarrow>
          (let (u, g1) = random_random g
           in if u < epsilon
              then (case random_choice (length evs) g1 of
                      Inl e \<Rightarrow> Inl e
                    | Inr (i, g2) \<Rightarrow> Inr (i, True, g2))
              else (case np_argmax (map estimate evs) of
                      Inl e \<Rightarrow> Inl e
                    | Inr i \<Rightarrow> Inr (i, False, g1))))"

text \<open>
  The body of the loop, for the iteration \<open>t\<close>. The two index checks stand for the
  \<^verbatim>\<open>IndexError\<close> of \<^verbatim>\<open>events[selected_event]\<close> and of \<^verbatim>\<open>results[t] = result\<close>. A raise ends
  the call and returns the error alone: what the object held at that moment is not modelled.
\<close>

definition iteration :: "rounding \<Rightarrow> nat \<Rightarrow> nat \<Rightarrow> run_state \<Rightarrow> error + run_state" where
  "iteration rnd optimal_index t s =
     (case selected_event rnd (initial_epsilon (self s)) (events s) (py_gen s) t of
        Inl e \<Rightarrow> Inl e
      | Inr (sel, explored, g') \<Rightarrow>
          (let self1 = (if explored
                        then (self s)\<lparr>num_explored := num_explored (self s) + 1\<rparr>
                        else (self s)\<lparr>num_exploited := num_exploited (self s) + 1\<rparr>);
               self2 = (if sel = optimal_index
                        then self1\<lparr>num_optimal := num_optimal self1 + 1\<rparr>
                        else self1)
           in if sel < length (events s)
              then (let (result, ev, h') = pull (events s ! sel) (np_gen s)
                    in if t < length (results s)
                       then Inr \<lparr>self = self2,
                                 events = (events s)[sel := update rnd ev result],
                                 results = (results s)[t := of_bool result],
                                 py_gen = g', np_gen = h'\<rparr>
                       else Inl IndexError)
              else Inl IndexError))"

text \<open>\<^verbatim>\<open>for t in range(self.iterations)\<close>: the body once for each \<open>t\<close>, stopping at a raise.\<close>

fun loop :: "rounding \<Rightarrow> nat \<Rightarrow> nat list \<Rightarrow> run_state \<Rightarrow> error + run_state" where
  "loop rnd optimal_index [] s = Inr s"
| "loop rnd optimal_index (t # ts) s =
     (case iteration rnd optimal_index t s of
        Inl e \<Rightarrow> Inl e
      | Inr s' \<Rightarrow> loop rnd optimal_index ts s')"

text \<open>
  \<^verbatim>\<open>run\<close> up to the end of the loop; the summary it prints and the plot it draws read the
  final state and change nothing.
\<close>

definition run :: "rounding \<Rightarrow> Experiment \<Rightarrow> real stream \<Rightarrow> real stream \<Rightarrow> error + run_state" where
  "run rnd self0 g h =
     (case np_argmax (probs self0) of
        Inl e \<Rightarrow> Inl e
      | Inr optimal_index \<Rightarrow>
          (let evs = map RandomEvent_init (probs self0)
           in case np_zeros (iterations self0) of
                Inl e \<Rightarrow> Inl e
              | Inr res \<Rightarrow>
                  loop rnd optimal_index [0..<nat (iterations self0)]
                    \<lparr>self = self0, events = evs, results = res, py_gen = g, np_gen = h\<rparr>))"

subsection \<open>The words of the specification\<close>

text \<open>The arithmetic mean of a sequence of binary outcomes, a success counting 1.\<close>

definition arithmetic_mean :: "bool list \<Rightarrow> real" where
  "arithmetic_mean rs = (\<Sum>r\<leftarrow>rs. of_bool r) / real (length rs)"

text \<open>
  \<open>first_max xs i\<close>: position \<open>i\<close> holds a largest value of \<open>xs\<close>, and every earlier value
  is strictly smaller.
\<close>

definition first_max :: "real list \<Rightarrow> nat \<Rightarrow> bool" where
  "first_max xs i \<longleftrightarrow>
     i < length xs \<and> (\<forall>j < length xs. xs ! j \<le> xs ! i) \<and> (\<forall>j < i. xs ! j < xs ! i)"

subsection \<open>A sample run\<close>

text \<open>
  The call used to illustrate the theorems below: two arms with win rates \<open>1/2\<close> and
  \<open>1/5\<close>, \<^verbatim>\<open>initial_epsilon = 0.1\<close>, two iterations, every draw of \<^verbatim>\<open>random\<close> equal to
  \<open>1/2\<close> and every draw of \<^verbatim>\<open>numpy.random\<close> equal to \<open>1/4\<close>, in exact arithmetic. Both
  iterations exploit, select arm 0 (the optimal one) and succeed. \<open>sample_start\<close> is the
  state on entry to the loop, \<open>sample_middle\<close> the state after one iteration and
  \<open>sample_final\<close> the state after both.
\<close>

abbreviation sample_experiment :: Experiment where
  "sample_experiment \<equiv> Experiment_init [1 / 2, 1 / 5] (1 / 10) 2"

abbreviation sample_start :: run_state where
  "sample_start \<equiv>
     \<lparr>self = sample_experiment,
      events = [RandomEvent_init (1 / 2), RandomEvent_init (1 / 5)],
      results = [0, 0], py_gen = sconst (1 / 2), np_gen = sconst (1 / 4)\<rparr>"

abbreviation sample_middle :: run_state where
  "sample_middle \<equiv>
     \<lparr>self = \<lparr>probs = [1 / 2, 1 / 5], initial_epsilon = 1 / 10, iterations = 2,
              num_explored = 0, num_exploited = 1, num_optimal = 1\<rparr>,
      events = [\<lparr>winrate = 1 / 2, estimate = 1, N = 1, history = [(1, 1)]\<rparr>,
                \<lparr>winrate = 1 / 5, estimate = 0, N = 0, history = []\<rparr>],
      results = [1, 0], py_gen = sconst (1 / 2), np_gen = sconst (1 / 4)\<rparr>"

abbreviation sample_final :: run_state where
  "sample_final \<equiv>
     \<lparr>self = \<lparr>probs = [1 / 2, 1 / 5], initial_epsilon = 1 / 10, iterations = 2,
              num_explored = 0, num_exploited = 2, num_optimal = 2\<rparr>,
      events = [\<lparr>winrate = 1 / 2, estimate = 1, N = 2, history = [(1, 1), (2, 1)]\<rparr>,
                \<lparr>winrate = 1 / 5, estimate = 0, N = 0, history = []\<rparr>],
      results = [1, 1], py_gen = sconst (1 / 2), np_gen = sconst (1 / 4)\<rparr>"

section \<open>Auxiliary facts\<close>

subsection \<open>The scan of \<^verbatim>\<open>np.argmax\<close>\<close>

lemma argmax_from_first_max:
  assumes "bi < length pre" and "pre ! bi = best"
    and "\<forall>j < length pre. pre ! j \<le> best" and "\<forall>j < bi. pre ! j < best"
  shows "first_max (pre @ xs) (argmax_from xs (length pre) best bi)"
  using assms
proof (induction xs arbitrary: pre best bi)
  case Nil
  then show ?case by (simp add: first_max_def)
next
  case (Cons x xs)
  show ?case
  proof (cases "best < x")
    case True
    have "first_max ((pre @ [x]) @ xs) (argmax_from xs (length (pre @ [x])) x (length pre))"
    proof (rule Cons.IH)
      show "\<forall>j<length (pre @ [x]). (pre @ [x]) ! j \<le> x"
        using Cons.prems(3) True by (auto simp: nth_append less_Suc_eq)
      show "\<forall>j<length pre. (pre @ [x]) ! j < x"
        using Cons.prems(3) True by (auto simp: nth_append)
    qed simp_all
    with True show ?thesis by simp
  next
    case False
    have "first_max ((pre @ [x]) @ xs) (argmax_from xs (length (pre @ [x])) best bi)"
    proof (rule Cons.IH)
      show "bi < length (pre @ [x])" using Cons.prems(1) by simp
      show "(pre @ [x]) ! bi = best" using Cons.prems(1,2) by (simp add: nth_append)
      show "\<forall>j<length (pre @ [x]). (pre @ [x]) ! j \<le> best"
        using Cons.prems(3) False by (auto simp: nth_append less_Suc_eq)
      show "\<forall>j<bi. (pre @ [x]) ! j < best"
        using Cons.prems(1,4) by (auto simp: nth_append)
    qed
    with False show ?thesis by simp
  qed
qed

lemma np_argmax_first_max: "np_argmax xs = Inr i \<Longrightarrow> first_max xs i"
proof (cases xs)
  case Nil
  assume "np_argmax xs = Inr i"
  with Nil show ?thesis by (simp add: np_argmax_def)
next
  case (Cons x rest)
  assume "np_argmax xs = Inr i"
  with Cons have i: "i = argmax_from rest (length [x]) x 0" by (simp add: np_argmax_def)
  have "first_max ([x] @ rest) (argmax_from rest (length [x]) x 0)"
    by (rule argmax_from_first_max) simp_all
  with i Cons show ?thesis by simp
qed

lemma np_argmax_nonempty: "xs \<noteq> [] \<Longrightarrow> \<exists>i. np_argmax xs = Inr i"
  by (cases xs) (simp_all add: np_argmax_def)

subsection \<open>One iteration, the loop and \<^verbatim>\<open>run\<close>\<close>

text \<open>What an iteration that does not raise has done.\<close>

lemma iteration_Inr_elim:
  assumes "iteration rnd oi t s = Inr s'"
  obtains sel explored g' where
    "selected_event rnd (initial_epsilon (self s)) (events s) (py_gen s) t = Inr (sel, explored, g')"
    and "sel < length (events s)" and "t < length (results s)"
    and "events s' = (events s)[sel := update rnd (events s ! sel) (shd (np_gen s) < winrate (events s ! sel))]"
    and "results s' = (results s)[t := of_bool (shd (np_gen s) < winrate (events s ! sel))]"
    and "py_gen s' = g'" and "np_gen s' = stl (np_gen s)"
    and "probs (self s') = probs (self s)" and "initial_epsilon (self s') = initial_epsilon (self s)"
    and "iterations (self s') = iterations (self s)"
    and "num_explored (self s') = num_explored (self s) + (if explored then 1 else 0)"
    and "num_exploited (self s') = num_exploited (self s) + (if explored then 0 else 1)"
    and "num_optimal (self s') = num_optimal (self s) + (if sel = oi then 1 else 0)"
  using assms unfolding iteration_def
  by (auto simp: Let_def pull_def random_random_def split: sum.splits prod.splits if_splits)

text \<open>
  An invariant of the loop that counts the iterations: it holds of the final state with the
  number of iterations run.
\<close>

lemma loop_invariant:
  assumes "loop rnd oi ts s = Inr s'" and "Q 0 s"
    and "\<And>k t u v. Q k u \<Longrightarrow> iteration rnd oi t u = Inr v \<Longrightarrow> Q (Suc k) v"
  shows "Q (length ts) s'"
  using assms
proof (induction ts arbitrary: s Q)
  case Nil
  then show ?case by simp
next
  case (Cons t ts)
  from Cons.prems(1) obtain s1
    where s1: "iteration rnd oi t s = Inr s1" "loop rnd oi ts s1 = Inr s'"
    by (auto split: sum.splits)
  have "(\<lambda>k. Q (Suc k)) (length ts) s'"
  proof (rule Cons.IH [OF s1(2)])
    show "Q (Suc 0) s1" using Cons.prems(2,3) s1(1) by blast
    show "\<And>k t u v. Q (Suc k) u \<Longrightarrow> iteration rnd oi t u = Inr v \<Longrightarrow> Q (Suc (Suc k)) v"
      using Cons.prems(3) by blast
  qed
  then show ?case by simp
qed

text \<open>A call of \<^verbatim>\<open>run\<close> that does not raise has run the loop from fresh arms.\<close>

lemma run_Inr_elim:
  assumes "run rnd e g h = Inr s"
  obtains oi where "np_argmax (probs e) = Inr oi" and "0 \<le> iterations e"
    and "loop rnd oi [0..<nat (iterations e)]
           \<lparr>self = e, events = map RandomEvent_init (probs e),
            results = replicate (nat (iterations e)) 0, py_gen = g, np_gen = h\<rparr> = Inr s"
  using assms unfolding run_def np_zeros_def
  by (auto simp: Let_def split: sum.splits if_splits)

text \<open>The unfolding that evaluates a call on concrete arguments.\<close>

lemmas run_eval =
  run_def np_argmax_def np_zeros_def iteration_def selected_event_def epsilon_func_def
  random_random_def random_choice_def pull_def update_def RandomEvent_init_def
  Experiment_init_def Let_def upt_rec eval_nat_numeral

subsection \<open>The sample run, evaluated\<close>

lemma sample_iteration: "iteration (\<lambda>x. x) 0 0 sample_start = Inr sample_middle"
  by (simp add: run_eval)

lemma sample_run:
  "run (\<lambda>x. x) sample_experiment (sconst (1 / 2)) (sconst (1 / 4)) = Inr sample_final"
  by (simp add: run_eval)

subsection \<open>The denominator of the schedule\<close>

text \<open>From iteration 0 on the denominator \<open>0.01 * t + 1\<close> is at least 1 and grows with \<open>t\<close>.\<close>

lemma denominator_ge_1:
  fixes rnd :: rounding
  assumes "mono rnd" "rnd 0 = 0" "rnd 1 = 1" "0 \<le> t"
  shows "1 \<le> rnd (rnd (rnd (1 / 100) * rnd (of_int t)) + 1)"
proof -
  have a: "0 \<le> rnd (1 / 100)" using monoD [OF assms(1), of 0 "1 / 100"] assms(2) by simp
  have b: "0 \<le> rnd (of_int t)" using monoD [OF assms(1), of 0 "of_int t"] assms(2,4) by simp
  have "0 \<le> rnd (rnd (1 / 100) * rnd (of_int t))"
    using monoD [OF assms(1), of 0 "rnd (1 / 100) * rnd (of_int t)"] assms(2) a b by simp
  then have "rnd 1 \<le> rnd (rnd (rnd (1 / 100) * rnd (of_int t)) + 1)"
    by (intro monoD [OF assms(1)]) simp
  with assms(3) show ?thesis by simp
qed

lemma denominator_mono:
  fixes rnd :: rounding
  assumes "mono rnd" "rnd 0 = 0" "0 \<le> t" "t \<le> t'"
  shows "rnd (rnd (rnd (1 / 100) * rnd (of_int t)) + 1)
           \<le> rnd (rnd (rnd (1 / 100) * rnd (of_int t')) + 1)"
proof -
  have a: "0 \<le> rnd (1 / 100)" using monoD [OF assms(1), of 0 "1 / 100"] assms(2) by simp
  have "rnd (of_int t) \<le> rnd (of_int t')" using assms(4) by (intro monoD [OF assms(1)]) simp
  then have "rnd (1 / 100) * rnd (of_int t) \<le> rnd (1 / 100) * rnd (of_int t')"
    using a by (rule mult_left_mono)
  then have "rnd (rnd (1 / 100) * rnd (of_int t)) \<le> rnd (rnd (1 / 100) * rnd (of_int t'))"
    by (rule monoD [OF assms(1)])
  then show ?thesis by (intro monoD [OF assms(1)]) simp
qed

subsection \<open>A call of \<^verbatim>\<open>run\<close> completes\<close>

text \<open>
  With at least one arm, a non-negative iteration count, draws in \<open>[0, 1)\<close> and a monotone
  rounding that leaves 0 and 1 unchanged, no statement of \<^verbatim>\<open>run\<close> raises: the schedule never
  divides by zero, every selected index is in range, and every \<open>t\<close> is an index of
  \<^verbatim>\<open>results\<close>.
\<close>

lemma random_choice_in_range:
  assumes "0 < n" and "0 \<le> shd g" and "shd g < 1"
  shows "\<exists>i. random_choice n g = Inr (i, stl g) \<and> i < n"
proof -
  have "shd g * real n < real n" using assms(1,3) by simp
  then have "\<lfloor>shd g * real n\<rfloor> < int n" by (simp add: floor_less_iff)
  moreover have "0 \<le> \<lfloor>shd g * real n\<rfloor>" using assms(2) by simp
  ultimately have "nat \<lfloor>shd g * real n\<rfloor> < n" by linarith
  with assms(1) show ?thesis by (simp add: random_choice_def)
qed

lemma selected_event_completes:
  assumes "evs \<noteq> []"
    and "rnd (rnd (rnd (1 / 100) * rnd (of_int (int t))) + 1) \<noteq> 0"
    and "\<forall>x\<in>sset g. 0 \<le> x \<and> x < 1"
  shows "\<exists>sel explored g'. selected_event rnd eps0 evs g t = Inr (sel, explored, g')
           \<and> sel < length evs \<and> sset g' \<subseteq> sset g"
proof -
  obtain epsilon where eps: "epsilon_func rnd eps0 (int t) = Inr epsilon"
    using assms(2) by (simp add: epsilon_func_def Let_def)
  have sub1: "sset (stl g) \<subseteq> sset g" by (auto dest: stl_sset)
  show ?thesis
  proof (cases "shd g < epsilon")
    case True
    have "0 \<le> shd (stl g) \<and> shd (stl g) < 1"
      using assms(3) sub1 shd_sset [of "stl g"] by blast
    then obtain i where i: "random_choice (length evs) (stl g) = Inr (i, stl (stl g))" "i < length evs"
      using random_choice_in_range [of "length evs" "stl g"] assms(1) by auto
    have "selected_event rnd eps0 evs g t = Inr (i, True, stl (stl g))"
      using eps True i(1) by (simp add: selected_event_def random_random_def)
    moreover have "sset (stl (stl g)) \<subseteq> sset g" by (auto dest: stl_sset)
    ultimately show ?thesis using i(2) by blast
  next
    case False
    obtain i where i: "np_argmax (map estimate evs) = Inr i"
      using np_argmax_nonempty [of "map estimate evs"] assms(1) by auto
    then have "first_max (map estimate evs) i" by (rule np_argmax_first_max)
    then have "i < length evs" by (simp add: first_max_def)
    moreover have "selected_event rnd eps0 evs g t = Inr (i, False, stl g)"
      using eps False i by (simp add: selected_event_def random_random_def)
    ultimately show ?thesis using sub1 by blast
  qed
qed

lemma iteration_completes:
  assumes "events u \<noteq> []" and "t < length (results u)"
    and "rnd (rnd (rnd (1 / 100) * rnd (of_int (int t))) + 1) \<noteq> 0"
    and "\<forall>x\<in>sset (py_gen u). 0 \<le> x \<and> x < 1"
  shows "\<exists>v. iteration rnd oi t u = Inr v \<and> length (events v) = length (events u)
           \<and> length (results v) = length (results u) \<and> sset (py_gen v) \<subseteq> sset (py_gen u)"
proof -
  from selected_event_completes [of "events u" rnd t "py_gen u" "initial_epsilon (self u)"]
    assms(1,3,4)
  obtain sel explored g' where
    s: "selected_event rnd (initial_epsilon (self u)) (events u) (py_gen u) t = Inr (sel, explored, g')"
    and r: "sel < length (events u)" "sset g' \<subseteq> sset (py_gen u)"
    by blast
  show ?thesis
    using s r assms(2) by (simp add: iteration_def Let_def pull_def random_random_def)
qed

lemma loop_completes:
  assumes "events u \<noteq> []" and "\<forall>t\<in>set ts. t < length (results u)"
    and "\<forall>t\<in>set ts. rnd (rnd (rnd (1 / 100) * rnd (of_int (int t))) + 1) \<noteq> 0"
    and "\<forall>x\<in>sset (py_gen u). 0 \<le> x \<and> x < 1"
  shows "\<exists>v. loop rnd oi ts u = Inr v"
  using assms
proof (induction ts arbitrary: u)
  case Nil
  show ?case by simp
next
  case (Cons t ts)
  have "\<exists>v. iteration rnd oi t u = Inr v \<and> length (events v) = length (events u)
           \<and> length (results v) = length (results u) \<and> sset (py_gen v) \<subseteq> sset (py_gen u)"
    using iteration_completes [of u t rnd oi] Cons.prems by simp
  then obtain u1 where u1: "iteration rnd oi t u = Inr u1" "length (events u1) = length (events u)"
    "length (results u1) = length (results u)" "sset (py_gen u1) \<subseteq> sset (py_gen u)"
    by blast
  have "\<exists>v. loop rnd oi ts u1 = Inr v"
  proof (rule Cons.IH)
    show "events u1 \<noteq> []" using u1(2) Cons.prems(1) by auto
    show "\<forall>t\<in>set ts. t < length (results u1)" using u1(3) Cons.prems(2) by simp
    show "\<forall>t\<in>set ts. rnd (rnd (rnd (1 / 100) * rnd (of_int (int t))) + 1) \<noteq> 0"
      using Cons.prems(3) by simp
    show "\<forall>x\<in>sset (py_gen u1). 0 \<le> x \<and> x < 1" using u1(4) Cons.prems(4) by blast
  qed
  with u1(1) show ?case by simp
qed

lemma run_completes:
  fixes rnd :: rounding
  assumes "mono rnd" and "rnd 0 = 0" and "rnd 1 = 1"
    and "probs e \<noteq> []" and "0 \<le> iterations e"
    and "\<forall>x\<in>sset g. 0 \<le> x \<and> x < 1"
  shows "\<exists>s. run rnd e g h = Inr s"
proof -
  obtain oi where oi: "np_argmax (probs e) = Inr oi"
    using np_argmax_nonempty [OF assms(4)] by blast
  have d: "rnd (rnd (rnd (1 / 100) * rnd (of_int (int t))) + 1) \<noteq> 0" for t
    using denominator_ge_1 [OF assms(1,2,3), of "int t"] by simp
  have "\<exists>v. loop rnd oi [0..<nat (iterations e)]
           \<lparr>self = e, events = map RandomEvent_init (probs e),
            results = replicate (nat (iterations e)) 0, py_gen = g, np_gen = h\<rparr> = Inr v"
    using loop_completes
      [of "\<lparr>self = e, events = map RandomEvent_init (probs e),
            results = replicate (nat (iterations e)) 0, py_gen = g, np_gen = h\<rparr>"
          "[0..<nat (iterations e)]" rnd oi]
      assms(4,6) d by simp
  then show ?thesis using oi assms(5) by (simp add: run_def np_zeros_def Let_def)
qed

subsection \<open>The rounding error of a double\<close>

text \<open>
  \<open>rne\<close> is within \<open>1/2\<close> of its argument. When the exponent found by \<open>expo\<close> is above
  \<open>-1022\<close> it is a lower bound of the argument, so the spacing of the doubles there is at most
  \<open>2^-52\<close> times the argument; otherwise the spacing is that of the subnormal numbers,
  \<open>2^-1074\<close>. So \<open>binary64\<close> errs by at most \<open>\<bar>x\<bar> / 2^53 + 1 / 2^1075\<close>, at every \<open>x\<close>.
\<close>

lemma rne_error: "\<bar>of_int (rne y) - y\<bar> \<le> 1 / 2"
proof -
  have "of_int \<lfloor>y\<rfloor> \<le> y" "y < of_int \<lfloor>y\<rfloor> + 1" by linarith+
  then show ?thesis by (auto simp: rne_def Let_def abs_le_iff)
qed

lemma expo_ge_1: "1 \<le> y \<Longrightarrow> 2 powi (expo k y) \<le> y"
proof (induction k arbitrary: y)
  case 0
  then show ?case by simp
next
  case (Suc k)
  show ?case
  proof (cases "2 \<le> y")
    case True
    then have "2 powi (expo k (y / 2)) \<le> y / 2" by (intro Suc.IH) simp
    then have "2 powi (expo k (y / 2) + 1) \<le> y" by (simp add: power_int_add)
    with True show ?thesis by simp
  next
    case False
    with Suc.prems show ?thesis by simp
  qed
qed

lemma expo_lt_1:
  "0 < y \<Longrightarrow> y < 1 \<Longrightarrow> 2 powi (expo k y) \<le> y \<or> expo k y = - int k"
proof (induction k arbitrary: y)
  case 0
  then show ?case by simp
next
  case (Suc k)
  have e: "expo (Suc k) y = expo k (2 * y) - 1" using Suc.prems by simp
  have half: "2 powi (expo k (2 * y)) \<le> 2 * y \<Longrightarrow> 2 powi (expo k (2 * y) - 1) \<le> y"
    by (simp add: power_int_diff)
  show ?case
  proof (cases "1 \<le> 2 * y")
    case True
    then have "2 powi (expo k (2 * y)) \<le> 2 * y" by (rule expo_ge_1)
    with half e show ?thesis by simp
  next
    case False
    then have "2 powi (expo k (2 * y)) \<le> 2 * y \<or> expo k (2 * y) = - int k"
      using Suc.prems by (intro Suc.IH) simp_all
    with half e show ?thesis by auto
  qed
qed

lemma expo_lower:
  assumes "0 < y" and "- 1022 < expo 1100 y"
  shows "2 powi (expo 1100 y) \<le> y"
proof (cases "1 \<le> y")
  case True
  then show ?thesis by (rule expo_ge_1)
next
  case False
  then have "2 powi (expo 1100 y) \<le> y \<or> expo 1100 y = - int 1100"
    using assms(1) by (intro expo_lt_1) simp_all
  with assms(2) show ?thesis by auto
qed

lemma binary64_error: "\<bar>binary64 x - x\<bar> \<le> \<bar>x\<bar> / 2 ^ 53 + 1 / 2 ^ 1075"
proof (cases "x = 0")
  case True
  then show ?thesis by (simp add: binary64_def)
next
  case False
  define e where "e = max (expo 1100 \<bar>x\<bar>) (- 1022)"
  define q :: real where "q = 2 powi (e - 52)"
  have q: "0 < q" by (simp add: q_def)
  have b: "binary64 x = of_int (rne (x / q)) * q"
    using False by (simp add: binary64_def Let_def e_def q_def)
  have "binary64 x - x = (of_int (rne (x / q)) - x / q) * q"
    using q by (simp add: b field_simps)
  then have "\<bar>binary64 x - x\<bar> = \<bar>of_int (rne (x / q)) - x / q\<bar> * q"
    using q by (simp add: abs_mult)
  also have "\<dots> \<le> 1 / 2 * q" using rne_error q by (intro mult_right_mono) simp_all
  also have "1 / 2 * q = 2 powi (e - 53)"
  proof -
    have "(2::real) powi (e - 53) = 2 powi ((e - 52) - 1)" by simp
    also have "\<dots> = 2 powi (e - 52) / 2" by (subst power_int_diff) simp_all
    finally show ?thesis by (simp add: q_def)
  qed
  finally have half: "\<bar>binary64 x - x\<bar> \<le> 2 powi (e - 53)" .
  show ?thesis
  proof (cases "- 1022 < expo 1100 \<bar>x\<bar>")
    case True
    then have e: "e = expo 1100 \<bar>x\<bar>" by (simp add: e_def)
    have "2 powi e \<le> \<bar>x\<bar>" unfolding e using False True by (intro expo_lower) simp_all
    moreover have "(2::real) powi (e - 53) = 2 powi e / 2 ^ 53" by (simp add: power_int_diff)
    ultimately have "2 powi (e - 53) \<le> \<bar>x\<bar> / 2 ^ 53" by (simp add: divide_right_mono)
    with half show ?thesis by simp
  next
    case False
    then have "e = - 1022" by (simp add: e_def)
    then have "(2::real) powi (e - 53) = 2 powi (- 1075)" by simp
    also have "\<dots> = 1 / 2 ^ 1075" by (simp add: power_int_minus field_simps)
    finally have "2 powi (e - 53) = (1::real) / 2 ^ 1075" .
    with half have "\<bar>binary64 x - x\<bar> \<le> 1 / 2 ^ 1075" by simp
    moreover have "0 \<le> \<bar>x\<bar> / 2 ^ 53" by simp
    ultimately show ?thesis by linarith
  qed
qed

subsection \<open>The running estimate\<close>

lemma N_foldl_update: "N (foldl (update rnd) ev rs) = N ev + length rs"
  by (induction rs rule: rev_induct) (simp_all add: update_def Let_def)

lemma exact_total:
  "real (length rs) * estimate (foldl (update (\<lambda>x. x)) (RandomEvent_init w) rs)
     = (\<Sum>r\<leftarrow>rs. of_bool r)"
proof (induction rs rule: rev_induct)
  case Nil
  show ?case by simp
next
  case (snoc r rs)
  let ?ev = "foldl (update (\<lambda>x. x)) (RandomEvent_init w) rs"
  have n: "N ?ev = length rs"
    by (simp add: N_foldl_update RandomEvent_init_def)
  have "estimate (update (\<lambda>x. x) ?ev r)
          = estimate ?ev + (of_bool r - estimate ?ev) / real (length rs + 1)"
    by (simp add: update_def Let_def n)
  then have "real (length rs + 1) * estimate (update (\<lambda>x. x) ?ev r)
               = real (length rs) * estimate ?ev + of_bool r"
    by (simp add: field_simps)
  with snoc show ?case by simp
qed

lemma exact_mean:
  "rs \<noteq> [] \<Longrightarrow>
     estimate (foldl (update (\<lambda>x. x)) (RandomEvent_init w) rs) = arithmetic_mean rs"
  using exact_total [of rs w] by (simp add: arithmetic_mean_def field_simps)

text \<open>
  The estimate computed in exact arithmetic lies between 0 and 1. Take a rounding whose error
  at \<open>x\<close> is at most \<open>u * \<bar>x\<bar> + h\<close>: \<open>u\<close> bounds the relative error and \<open>h\<close> the absolute
  error of a result that underflows. One rounded step of the update then moves away from the
  exact step by a factor of at most \<open>(1 + u)^3\<close> and a term of at most \<open>3h\<close>, one of each
  for each of the three float operations.
\<close>

lemma estimate_update:
  "estimate (update rnd ev r)
     = rnd (estimate ev + rnd (rnd (of_bool r - estimate ev) / real (N ev + 1)))"
  by (simp add: update_def Let_def)

lemma N_update: "N (update rnd ev r) = N ev + 1"
  by (simp add: update_def Let_def)

lemma exact_estimate_bounds:
  "0 \<le> estimate (foldl (update (\<lambda>x. x)) (RandomEvent_init w) rs)
   \<and> estimate (foldl (update (\<lambda>x. x)) (RandomEvent_init w) rs) \<le> 1"
proof (cases "rs = []")
  case True
  then show ?thesis by (simp add: RandomEvent_init_def)
next
  case False
  let ?m = "estimate (foldl (update (\<lambda>x. x)) (RandomEvent_init w) rs)"
  have n: "0 < real (length rs)" using False by simp
  have t: "real (length rs) * ?m = (\<Sum>r\<leftarrow>rs. of_bool r)" by (rule exact_total)
  have lo: "(0::real) \<le> (\<Sum>r\<leftarrow>rs. of_bool r)" by (induction rs) simp_all
  have hi: "(\<Sum>r\<leftarrow>rs. of_bool r) \<le> real (length rs)" by (induction rs) simp_all
  have "0 \<le> real (length rs) * ?m" using t lo by simp
  then have a: "0 \<le> ?m" using n by (simp add: zero_le_mult_iff)
  have "real (length rs) * ?m \<le> real (length rs) * 1" using t hi by simp
  then have "?m \<le> 1" using n by (simp only: mult_le_cancel_left_pos)
  with a show ?thesis by simp
qed

lemma rounded_step:
  fixes rnd :: rounding and s m u h H n :: real
  assumes rel: "\<forall>x. \<bar>rnd x - x\<bar> \<le> u * \<bar>x\<bar> + h" and u: "0 \<le> u" and h: "0 \<le> h"
    and H: "1 \<le> H" and e: "\<bar>s - m\<bar> \<le> H - 1"
    and m: "0 \<le> m" "m \<le> 1" and n: "1 \<le> n"
  shows "\<bar>rnd (s + rnd (rnd (of_bool r - s) / n)) - (m + (of_bool r - m) / n)\<bar>
           \<le> (1 + u) ^ 3 * (H + 3 * h) - 1"
proof -
  define q :: real where "q = of_bool r"
  define a where "a = rnd (q - s)"
  define b where "b = rnd (a / n)"
  define t where "t = s + b"
  define m' where "m' = m + (q - m) / n"
  have q: "0 \<le> q" "q \<le> 1" by (simp_all add: q_def)
  have npos: "0 < n" using n by simp
  have A: "\<bar>q - s\<bar> \<le> H"
  proof -
    have "\<bar>q - m\<bar> \<le> 1" using q m by (simp add: abs_le_iff)
    then show ?thesis using e by (simp add: abs_le_iff)
  qed
  have a1: "\<bar>a - (q - s)\<bar> \<le> u * H + h"
  proof -
    have "\<bar>a - (q - s)\<bar> \<le> u * \<bar>q - s\<bar> + h" unfolding a_def using rel by blast
    moreover have "u * \<bar>q - s\<bar> \<le> u * H" using A u by (rule mult_left_mono)
    ultimately show ?thesis by simp
  qed
  have a2: "\<bar>a\<bar> \<le> (1 + u) * H + h"
  proof -
    have "\<bar>a\<bar> \<le> \<bar>a - (q - s)\<bar> + \<bar>q - s\<bar>" by simp
    also have "\<dots> \<le> (u * H + h) + H" using a1 A by simp
    finally show ?thesis by (simp add: algebra_simps)
  qed
  have b1: "\<bar>b - a / n\<bar> \<le> u * ((1 + u) * H + h) + h"
  proof -
    have "\<bar>b - a / n\<bar> \<le> u * \<bar>a / n\<bar> + h" unfolding b_def using rel by blast
    moreover have "\<bar>a / n\<bar> \<le> \<bar>a\<bar>" using n by (simp add: divide_le_eq mult_le_cancel_left1)
    then have "u * \<bar>a / n\<bar> \<le> u * \<bar>a\<bar>" using u by (rule mult_left_mono)
    moreover have "u * \<bar>a\<bar> \<le> u * ((1 + u) * H + h)" using a2 u by (rule mult_left_mono)
    ultimately show ?thesis by simp
  qed
  have b2: "\<bar>a / n - (q - s) / n\<bar> \<le> u * H + h"
  proof -
    have "\<bar>a / n - (q - s) / n\<bar> = \<bar>a - (q - s)\<bar> / n"
      using npos by (simp add: diff_divide_distrib [symmetric])
    also have "\<dots> \<le> \<bar>a - (q - s)\<bar>" using n by (simp add: divide_le_eq mult_le_cancel_left1)
    also have "\<dots> \<le> u * H + h" by (rule a1)
    finally show ?thesis .
  qed
  have b3: "\<bar>b - (q - s) / n\<bar> \<le> ((1 + u)\<^sup>2 - 1) * H + (2 + u) * h"
  proof -
    have "\<bar>b - (q - s) / n\<bar> \<le> \<bar>b - a / n\<bar> + \<bar>a / n - (q - s) / n\<bar>" by simp
    also have "\<dots> \<le> (u * ((1 + u) * H + h) + h) + (u * H + h)" using b1 b2 by simp
    also have "\<dots> = ((1 + u)\<^sup>2 - 1) * H + (2 + u) * h"
      by (simp add: power2_eq_square algebra_simps)
    finally show ?thesis .
  qed
  have c1: "\<bar>(s - m) * (1 - 1 / n)\<bar> \<le> H - 1"
  proof -
    have "0 \<le> 1 - 1 / n" "1 - 1 / n \<le> 1" using n by simp_all
    then have "\<bar>(s - m) * (1 - 1 / n)\<bar> \<le> \<bar>s - m\<bar> * 1"
      unfolding abs_mult by (intro mult_left_mono) simp_all
    with e show ?thesis by simp
  qed
  have t1: "\<bar>t - m'\<bar> \<le> (1 + u)\<^sup>2 * H - 1 + (2 + u) * h"
  proof -
    have "t - m' = (s - m) * (1 - 1 / n) + (b - (q - s) / n)"
      using npos by (simp add: t_def m'_def field_simps)
    then have "\<bar>t - m'\<bar> \<le> \<bar>(s - m) * (1 - 1 / n)\<bar> + \<bar>b - (q - s) / n\<bar>" by simp
    also have "\<dots> \<le> (H - 1) + (((1 + u)\<^sup>2 - 1) * H + (2 + u) * h)" using c1 b3 by simp
    also have "\<dots> = (1 + u)\<^sup>2 * H - 1 + (2 + u) * h" by (simp add: algebra_simps)
    finally show ?thesis .
  qed
  have m'1: "\<bar>m'\<bar> \<le> 1"
  proof -
    have eq: "m' = m * (1 - 1 / n) + q * (1 / n)" using npos by (simp add: m'_def field_simps)
    have w: "0 \<le> 1 - 1 / n" "0 \<le> 1 / n" using n by simp_all
    have "0 \<le> m'" unfolding eq using m q w by (intro add_nonneg_nonneg mult_nonneg_nonneg)
    moreover have "m' \<le> 1 * (1 - 1 / n) + 1 * (1 / n)"
      unfolding eq using m q w by (intro add_mono mult_right_mono)
    ultimately show ?thesis by simp
  qed
  have t2: "\<bar>t\<bar> \<le> (1 + u)\<^sup>2 * H + (2 + u) * h"
  proof -
    have "\<bar>t\<bar> \<le> \<bar>t - m'\<bar> + \<bar>m'\<bar>" by simp
    with t1 m'1 show ?thesis by simp
  qed
  have r1: "\<bar>rnd t - t\<bar> \<le> u * ((1 + u)\<^sup>2 * H + (2 + u) * h) + h"
  proof -
    have "\<bar>rnd t - t\<bar> \<le> u * \<bar>t\<bar> + h" using rel by blast
    moreover have "u * \<bar>t\<bar> \<le> u * ((1 + u)\<^sup>2 * H + (2 + u) * h)"
      using t2 u by (rule mult_left_mono)
    ultimately show ?thesis by simp
  qed
  have k: "(3 + 3 * u + u\<^sup>2) * h \<le> (1 + u) ^ 3 * (3 * h)"
  proof -
    have "0 \<le> u\<^sup>2" "0 \<le> u ^ 3" using u by simp_all
    then have "3 + 3 * u + u\<^sup>2 \<le> 3 * (1 + u) ^ 3"
      using u by (simp add: power2_eq_square power3_eq_cube algebra_simps)
    then have "(3 + 3 * u + u\<^sup>2) * h \<le> (3 * (1 + u) ^ 3) * h" using h by (rule mult_right_mono)
    then show ?thesis by (simp add: mult_ac)
  qed
  have "\<bar>rnd t - m'\<bar> \<le> \<bar>rnd t - t\<bar> + \<bar>t - m'\<bar>" by simp
  also have "\<dots> \<le> (u * ((1 + u)\<^sup>2 * H + (2 + u) * h) + h) + ((1 + u)\<^sup>2 * H - 1 + (2 + u) * h)"
    using r1 t1 by simp
  also have "\<dots> = (1 + u) ^ 3 * H - 1 + (3 + 3 * u + u\<^sup>2) * h"
    by (simp add: power2_eq_square power3_eq_cube algebra_simps)
  also have "\<dots> \<le> (1 + u) ^ 3 * H - 1 + (1 + u) ^ 3 * (3 * h)" using k by simp
  also have "\<dots> = (1 + u) ^ 3 * (H + 3 * h) - 1" by (simp add: algebra_simps)
  finally show ?thesis by (simp add: t_def b_def a_def m'_def q_def)
qed

lemma rounded_estimate_error:
  fixes rnd :: rounding
  assumes "\<forall>x. \<bar>rnd x - x\<bar> \<le> u * \<bar>x\<bar> + h" and "0 \<le> u" and "0 \<le> h"
  shows "N (foldl (update rnd) (RandomEvent_init w) rs) = length rs
    \<and> \<bar>estimate (foldl (update rnd) (RandomEvent_init w) rs)
        - estimate (foldl (update (\<lambda>x. x)) (RandomEvent_init w) rs)\<bar>
       \<le> (1 + u) ^ (3 * length rs) * (1 + 3 * real (length rs) * h) - 1"
proof (induction rs rule: rev_induct)
  case Nil
  show ?case by (simp add: RandomEvent_init_def)
next
  case (snoc r rs)
  let ?s = "estimate (foldl (update rnd) (RandomEvent_init w) rs)"
  let ?m = "estimate (foldl (update (\<lambda>x. x)) (RandomEvent_init w) rs)"
  let ?G = "(1 + u) ^ (3 * length rs)"
  let ?H = "?G * (1 + 3 * real (length rs) * h)"
  have n1: "N (foldl (update rnd) (RandomEvent_init w) rs) = length rs" using snoc by simp
  have n2: "N (foldl (update (\<lambda>x. x)) (RandomEvent_init w) rs) = length rs"
    by (simp add: N_foldl_update RandomEvent_init_def)
  have G: "1 \<le> ?G" using assms(2) by simp
  have L: "1 \<le> 1 + 3 * real (length rs) * h" using assms(3) by simp
  have H: "1 \<le> ?H" using G L by (metis mult_mono' mult_1 zero_le_one)
  have e: "\<bar>?s - ?m\<bar> \<le> ?H - 1" using snoc by simp
  have m: "0 \<le> ?m" "?m \<le> 1" using exact_estimate_bounds [of w rs] by simp_all
  have step: "\<bar>rnd (?s + rnd (rnd (of_bool r - ?s) / real (length rs + 1)))
          - (?m + (of_bool r - ?m) / real (length rs + 1))\<bar> \<le> (1 + u) ^ 3 * (?H + 3 * h) - 1"
    using assms H e m by (intro rounded_step) simp_all
  have "?H + 3 * h \<le> ?G * (1 + 3 * real (length rs) * h) + ?G * (3 * h)"
    using G assms(3) by (simp add: mult_le_cancel_right1)
  also have "\<dots> = ?G * (1 + 3 * real (length (rs @ [r])) * h)" by (simp add: algebra_simps)
  finally have "(1 + u) ^ 3 * (?H + 3 * h)
      \<le> (1 + u) ^ 3 * (?G * (1 + 3 * real (length (rs @ [r])) * h))"
    using assms(2) by (intro mult_left_mono) simp_all
  also have "\<dots> = (1 + u) ^ (3 * length (rs @ [r])) * (1 + 3 * real (length (rs @ [r])) * h)"
    by (simp add: power_add [symmetric] mult.assoc [symmetric])
  finally have "(1 + u) ^ 3 * (?H + 3 * h) - 1
      \<le> (1 + u) ^ (3 * length (rs @ [r])) * (1 + 3 * real (length (rs @ [r])) * h) - 1"
    by simp
  with step have "\<bar>rnd (?s + rnd (rnd (of_bool r - ?s) / real (length rs + 1)))
          - (?m + (of_bool r - ?m) / real (length rs + 1))\<bar>
      \<le> (1 + u) ^ (3 * length (rs @ [r])) * (1 + 3 * real (length (rs @ [r])) * h) - 1"
    by linarith
  then show ?case
    by (simp add: estimate_update N_update n1 n2)
qed

subsection \<open>The selection and the counters\<close>


lemma selected_event_zero:
  assumes "rnd 0 = 0" and "0 \<le> shd g"
    and "selected_event rnd 0 evs g t = Inr (sel, explored, g')"
  shows "\<not> explored \<and> g' = stl g"
  using assms unfolding selected_event_def epsilon_func_def
  by (auto simp: Let_def random_random_def split: sum.splits prod.splits if_splits)

lemma iteration_total:
  "iteration rnd oi t u = Inr v \<Longrightarrow>
     num_explored (self v) + num_exploited (self v) = Suc (num_explored (self u) + num_exploited (self u))"
  by (erule iteration_Inr_elim) simp

lemma iteration_optimal_le:
  "iteration rnd oi t u = Inr v \<Longrightarrow> num_optimal (self v) \<le> Suc (num_optimal (self u))"
  by (erule iteration_Inr_elim) simp

lemma iteration_zero:
  assumes "rnd 0 = 0" and "initial_epsilon (self u) = 0" and "\<forall>x\<in>sset (py_gen u). 0 \<le> x"
    and "iteration rnd oi t u = Inr v"
  shows "num_explored (self v) = num_explored (self u) \<and> initial_epsilon (self v) = 0
           \<and> (\<forall>x\<in>sset (py_gen v). 0 \<le> x)"
  using assms(4)
proof (rule iteration_Inr_elim)
  fix sel explored g'
  assume sel: "selected_event rnd (initial_epsilon (self u)) (events u) (py_gen u) t = Inr (sel, explored, g')"
    and gen: "py_gen v = g'"
    and eps: "initial_epsilon (self v) = initial_epsilon (self u)"
    and cnt: "num_explored (self v) = num_explored (self u) + (if explored then 1 else 0)"
  have "0 \<le> shd (py_gen u)" using assms(3) by (simp add: shd_sset)
  with assms(1,2) sel have e: "\<not> explored \<and> g' = stl (py_gen u)"
    using selected_event_zero [of rnd "py_gen u" "events u" t sel explored g'] by simp
  have "\<forall>x\<in>sset (stl (py_gen u)). 0 \<le> x" using assms(3) by (auto dest: stl_sset)
  with e gen eps cnt assms(2) show ?thesis by simp
qed

subsection \<open>The counters do not influence a run\<close>

lemma iteration_counters_irrelevant:
  assumes "iteration rnd oi t u = Inr v"
    and "events u' = events u" and "results u' = results u"
    and "py_gen u' = py_gen u" and "np_gen u' = np_gen u"
    and "initial_epsilon (self u') = initial_epsilon (self u)"
  shows "\<exists>v'. iteration rnd oi t u' = Inr v'
    \<and> events v' = events v \<and> results v' = results v
    \<and> py_gen v' = py_gen v \<and> np_gen v' = np_gen v
    \<and> initial_epsilon (self v') = initial_epsilon (self v)
    \<and> num_explored (self v') + num_explored (self u) = num_explored (self v) + num_explored (self u')
    \<and> num_exploited (self v') + num_exploited (self u) = num_exploited (self v) + num_exploited (self u')
    \<and> num_optimal (self v') + num_optimal (self u) = num_optimal (self v) + num_optimal (self u')"
  using assms unfolding iteration_def
  by (auto simp: Let_def split: sum.splits prod.splits if_splits)

lemma loop_counters_irrelevant:
  assumes "loop rnd oi ts u = Inr v"
    and "events u' = events u" and "results u' = results u"
    and "py_gen u' = py_gen u" and "np_gen u' = np_gen u"
    and "initial_epsilon (self u') = initial_epsilon (self u)"
  shows "\<exists>v'. loop rnd oi ts u' = Inr v'
    \<and> events v' = events v \<and> results v' = results v
    \<and> py_gen v' = py_gen v \<and> np_gen v' = np_gen v
    \<and> num_explored (self v') + num_explored (self u) = num_explored (self v) + num_explored (self u')
    \<and> num_exploited (self v') + num_exploited (self u) = num_exploited (self v) + num_exploited (self u')
    \<and> num_optimal (self v') + num_optimal (self u) = num_optimal (self v) + num_optimal (self u')"
  using assms
proof (induction ts arbitrary: u u')
  case Nil
  then show ?case by simp
next
  case (Cons t ts)
  from Cons.prems(1) obtain u1
    where u1: "iteration rnd oi t u = Inr u1" "loop rnd oi ts u1 = Inr v"
    by (auto split: sum.splits)
  from iteration_counters_irrelevant [OF u1(1) Cons.prems(2-6)] obtain u1'
    where i: "iteration rnd oi t u' = Inr u1'"
      and same: "events u1' = events u1" "results u1' = results u1"
        "py_gen u1' = py_gen u1" "np_gen u1' = np_gen u1"
        "initial_epsilon (self u1') = initial_epsilon (self u1)"
      and c1: "num_explored (self u1') + num_explored (self u) = num_explored (self u1) + num_explored (self u')"
        "num_exploited (self u1') + num_exploited (self u) = num_exploited (self u1) + num_exploited (self u')"
        "num_optimal (self u1') + num_optimal (self u) = num_optimal (self u1) + num_optimal (self u')"
    by blast
  from Cons.IH [OF u1(2) same] obtain v'
    where l: "loop rnd oi ts u1' = Inr v'"
      and res: "events v' = events v" "results v' = results v"
        "py_gen v' = py_gen v" "np_gen v' = np_gen v"
      and c2: "num_explored (self v') + num_explored (self u1) = num_explored (self v) + num_explored (self u1')"
        "num_exploited (self v') + num_exploited (self u1) = num_exploited (self v) + num_exploited (self u1')"
        "num_optimal (self v') + num_optimal (self u1) = num_optimal (self v) + num_optimal (self u1')"
    by blast
  have "loop rnd oi (t # ts) u' = Inr v'" using i l by simp
  moreover have "num_explored (self v') + num_explored (self u) = num_explored (self v) + num_explored (self u')"
    using c1(1) c2(1) by linarith
  moreover have "num_exploited (self v') + num_exploited (self u) = num_exploited (self v) + num_exploited (self u')"
    using c1(2) c2(2) by linarith
  moreover have "num_optimal (self v') + num_optimal (self u) = num_optimal (self v) + num_optimal (self u')"
    using c1(3) c2(3) by linarith
  ultimately show ?case using res by blast
qed

subsection \<open>Win rates, pull counts and histories\<close>

lemma iteration_winrate:
  "iteration rnd oi t u = Inr v \<Longrightarrow> map winrate (events v) = map winrate (events u)"
proof (erule iteration_Inr_elim)
  fix sel explored g'
  assume "sel < length (events u)"
    and "events v = (events u)[sel := update rnd (events u ! sel) (shd (np_gen u) < winrate (events u ! sel))]"
  then show ?thesis
    by (simp add: map_update update_def Let_def list_update_same_conv)
qed

lemma sum_N_update:
  "sel < length evs \<Longrightarrow>
     sum_list (map N (evs[sel := update rnd (evs ! sel) r])) = Suc (sum_list (map N evs))"
  by (simp add: map_update sum_list_update update_def Let_def)

lemma history_update:
  "map fst (history ev) = [1..<Suc (N ev)] \<Longrightarrow>
     map fst (history (update rnd ev r)) = [1..<Suc (N (update rnd ev r))]"
  by (simp add: update_def Let_def)

lemma iteration_pulls:
  assumes "iteration rnd oi t u = Inr v"
  shows "sum_list (map N (events v)) = Suc (sum_list (map N (events u)))"
  using assms by (rule iteration_Inr_elim) (simp add: sum_N_update)

lemma iteration_history:
  assumes "iteration rnd oi t u = Inr v"
    and "\<forall>ev\<in>set (events u). map fst (history ev) = [1..<Suc (N ev)]"
  shows "\<forall>ev\<in>set (events v). map fst (history ev) = [1..<Suc (N ev)]"
  using assms(1)
proof (rule iteration_Inr_elim)
  fix sel explored g'
  assume sel: "sel < length (events u)"
    and ev: "events v = (events u)[sel := update rnd (events u ! sel) (shd (np_gen u) < winrate (events u ! sel))]"
  let ?new = "update rnd (events u ! sel) (shd (np_gen u) < winrate (events u ! sel))"
  have "map fst (history (events u ! sel)) = [1..<Suc (N (events u ! sel))]"
    using assms(2) sel by simp
  then have new: "map fst (history ?new) = [1..<Suc (N ?new)]" by (rule history_update)
  have "set (events v) \<subseteq> insert ?new (set (events u))"
    unfolding ev by (rule set_update_subset_insert)
  with new assms(2) show ?thesis by blast
qed

section \<open>The claims\<close>

text \<open>
  C1 (amended). Feed a fresh arm any finite sequence of binary outcomes, in order. After every
  non-empty prefix of \<open>k\<close> outcomes the estimate is the arithmetic mean of those outcomes up
  to rounding: computed in doubles, the estimate and the mean differ by at most
  \<open>(1 + 2^-53)^(3k) * (1 + 3k * 2^-1075) - 1\<close>, which is about \<open>3k * 2^-53\<close>; computed in
  exact arithmetic, the two are equal. (No value of the update exceeds 2 by much, so no
  operation overflows.)
\<close>

theorem update_running_mean:
  assumes "0 < k" and "k \<le> length rs"
  shows "\<bar>estimate (foldl (update binary64) (RandomEvent_init w) (take k rs))
            - arithmetic_mean (take k rs)\<bar>
           \<le> (1 + 1 / 2 ^ 53) ^ (3 * k) * (1 + 3 * real k / 2 ^ 1075) - 1
     \<and> estimate (foldl (update (\<lambda>x. x)) (RandomEvent_init w) (take k rs))
         = arithmetic_mean (take k rs)"
proof -
  have ne: "take k rs \<noteq> []" using assms by auto
  have len: "length (take k rs) = k" using assms(2) by simp
  have exact: "estimate (foldl (update (\<lambda>x. x)) (RandomEvent_init w) (take k rs))
         = arithmetic_mean (take k rs)"
    using ne by (rule exact_mean)
  have rel: "\<forall>x. \<bar>binary64 x - x\<bar> \<le> 1 / 2 ^ 53 * \<bar>x\<bar> + 1 / 2 ^ 1075"
    using binary64_error by simp
  have "\<bar>estimate (foldl (update binary64) (RandomEvent_init w) (take k rs))
        - estimate (foldl (update (\<lambda>x. x)) (RandomEvent_init w) (take k rs))\<bar>
       \<le> (1 + 1 / 2 ^ 53) ^ (3 * length (take k rs))
            * (1 + 3 * real (length (take k rs)) * (1 / 2 ^ 1075)) - 1"
    using rounded_estimate_error [of binary64 "1 / 2 ^ 53" "1 / 2 ^ 1075" w "take k rs"] rel
    by simp
  with exact len show ?thesis by simp
qed

theorem update_running_mean_witness:
  "(0::nat) < 3 \<and> (3::nat) \<le> length [True, False, False]
   \<and> \<bar>estimate (foldl (update binary64) (RandomEvent_init (1 / 2)) (take 3 [True, False, False]))
          - arithmetic_mean (take 3 [True, False, False])\<bar>
       \<le> (1 + 1 / 2 ^ 53) ^ (3 * 3) * (1 + 3 * real (3::nat) / 2 ^ 1075) - 1
   \<and> estimate (foldl (update (\<lambda>x. x)) (RandomEvent_init (1 / 2)) (take 3 [True, False, False]))
       = arithmetic_mean (take 3 [True, False, False])
   \<and> estimate (foldl (update binary64) (RandomEvent_init (1 / 2)) (take 3 [True, False, False]))
       = 6004799503160662 / 2 ^ 54
   \<and> arithmetic_mean (take 3 [True, False, False]) = 1 / 3"
proof -
  have a: "(0::nat) < 3" and b: "(3::nat) \<le> length [True, False, False]" by simp_all
  have v: "estimate (foldl (update binary64) (RandomEvent_init (1 / 2)) (take 3 [True, False, False]))
       = 6004799503160662 / 2 ^ 54"
    by (simp add: update_def RandomEvent_init_def binary64_def rne_def Let_def eval_nat_numeral)
  have m: "arithmetic_mean (take 3 [True, False, False]) = 1 / 3"
    by (simp add: arithmetic_mean_def)
  from update_running_mean [OF a b, of "1 / 2"] a b v m show ?thesis by blast
qed

text \<open>
  C1 as stated fails on doubles. After the outcomes 1, 0, 0 the estimate is
  \<open>6004799503160662 / 2^54\<close> (Python prints 0.33333333333333337): it is neither the mean
  \<open>1/3\<close> nor the double nearest to it, \<open>6004799503160661 / 2^54\<close>.
\<close>

theorem update_running_mean_counterexample:
  "estimate (foldl (update binary64) (RandomEvent_init (1 / 2)) [True, False, False])
     \<noteq> arithmetic_mean [True, False, False]
   \<and> estimate (foldl (update binary64) (RandomEvent_init (1 / 2)) [True, False, False])
     \<noteq> binary64 (arithmetic_mean [True, False, False])"
  by (simp add: update_def RandomEvent_init_def binary64_def rne_def Let_def
        eval_nat_numeral arithmetic_mean_def)

text \<open>
  C2 (amended). A call of \<^verbatim>\<open>run\<close> that completes adds exactly \<^verbatim>\<open>iterations\<close> to the sum
  of \<^verbatim>\<open>num_explored\<close> and \<^verbatim>\<open>num_exploited\<close>. The sum is \<^verbatim>\<open>iterations\<close> after the first call
  on a newly built \<^verbatim>\<open>Experiment\<close>, whose counters are 0; \<^verbatim>\<open>run\<close> never resets the counters, so
  after a later call on the same object the sum is larger.
\<close>

theorem run_explore_exploit_total:
  assumes "run rnd e g h = Inr s"
  shows "int (num_explored (self s) + num_exploited (self s))
           = int (num_explored e + num_exploited e) + iterations e"
proof -
  from assms obtain oi where n: "0 \<le> iterations e"
    and l: "loop rnd oi [0..<nat (iterations e)]
           \<lparr>self = e, events = map RandomEvent_init (probs e),
            results = replicate (nat (iterations e)) 0, py_gen = g, np_gen = h\<rparr> = Inr s"
    by (rule run_Inr_elim)
  have "(\<lambda>k u. num_explored (self u) + num_exploited (self u) = num_explored e + num_exploited e + k)
          (length [0..<nat (iterations e)]) s"
    by (rule loop_invariant [OF l]) (simp_all add: iteration_total)
  with n show ?thesis by simp
qed

theorem run_explore_exploit_total_witness:
  "run (\<lambda>x. x) sample_experiment (sconst (1 / 2)) (sconst (1 / 4)) = Inr sample_final
   \<and> int (num_explored (self sample_final) + num_exploited (self sample_final))
       = int (num_explored sample_experiment + num_exploited sample_experiment)
         + iterations sample_experiment
   \<and> num_explored (self sample_final) + num_exploited (self sample_final) = 2"
  using run_explore_exploit_total [OF sample_run] sample_run by simp

text \<open>
  C2 as stated fails for the second call on one object: with one iteration per call, the
  first call leaves the counters at 0 and 1, and the second call, started from them, leaves 0
  and 2, whose sum is not the iteration count 1.
\<close>

theorem run_twice_counterexample:
  "map_sum id self
     (run (\<lambda>x. x) (Experiment_init [1 / 5, 1 / 2] (1 / 10) 1) (sconst (1 / 2)) (sconst (1 / 4)))
     = Inr \<lparr>probs = [1 / 5, 1 / 2], initial_epsilon = 1 / 10, iterations = 1,
            num_explored = 0, num_exploited = 1, num_optimal = 0\<rparr>
   \<and> map_sum id self
     (run (\<lambda>x. x) \<lparr>probs = [1 / 5, 1 / 2], initial_epsilon = 1 / 10, iterations = 1,
            num_explored = 0, num_exploited = 1, num_optimal = 0\<rparr> (sconst (1 / 2)) (sconst (1 / 4)))
     = Inr \<lparr>probs = [1 / 5, 1 / 2], initial_epsilon = 1 / 10, iterations = 1,
            num_explored = 0, num_exploited = 2, num_optimal = 0\<rparr>
   \<and> int (0 + 2) \<noteq> 1"
  by (simp add: run_eval)

text \<open>
  C3. For \<open>e0 \<ge> 0\<close> and iteration indices \<open>0 \<le> t \<le> t'\<close>, \<^verbatim>\<open>epsilon_func(e0, t)\<close> does not
  raise and is \<open>e0 / (0.01 * t + 1)\<close>, each float operation rounded (and exactly that
  quotient in exact arithmetic); its value at \<open>t'\<close> is at most its value at \<open>t\<close>; and its
  value at 0 is \<open>e0\<close>. The rounding is any monotone function that leaves 0, 1 and the float
  \<open>e0\<close> unchanged, as rounding to the nearest double does.
\<close>

theorem epsilon_func_decay:
  assumes "mono rnd" and "rnd 0 = 0" and "rnd 1 = 1" and "rnd e0 = e0"
    and "0 \<le> e0" and "0 \<le> t" and "t \<le> t'"
  shows "epsilon_func rnd e0 t = Inr (rnd (e0 / rnd (rnd (rnd (1 / 100) * rnd (of_int t)) + 1)))
    \<and> epsilon_func (\<lambda>x. x) e0 t = Inr (e0 / (1 / 100 * of_int t + 1))
    \<and> (\<exists>a b. epsilon_func rnd e0 t = Inr a \<and> epsilon_func rnd e0 t' = Inr b \<and> b \<le> a)
    \<and> epsilon_func rnd e0 0 = Inr e0"
proof -
  let ?d = "\<lambda>t. rnd (rnd (rnd (1 / 100) * rnd (of_int t)) + 1)"
  have t': "0 \<le> t'" using assms(6,7) by simp
  have d: "1 \<le> ?d t" using assms(1,2,3,6) by (rule denominator_ge_1)
  have d': "1 \<le> ?d t'" using assms(1,2,3) t' by (rule denominator_ge_1)
  have dd: "?d t \<le> ?d t'" using assms(1,2,6,7) by (rule denominator_mono)
  have e: "epsilon_func rnd e0 t = Inr (rnd (e0 / ?d t))"
    using d by (simp add: epsilon_func_def Let_def)
  have e': "epsilon_func rnd e0 t' = Inr (rnd (e0 / ?d t'))"
    using d' by (simp add: epsilon_func_def Let_def)
  have "e0 / ?d t' \<le> e0 / ?d t"
    using assms(5) d dd by (intro divide_left_mono) (auto intro: mult_pos_pos)
  then have le: "rnd (e0 / ?d t') \<le> rnd (e0 / ?d t)" by (rule monoD [OF assms(1)])
  have x: "epsilon_func (\<lambda>x. x) e0 t = Inr (e0 / (1 / 100 * of_int t + 1))"
  proof -
    have "(of_int t :: real) / 100 + 1 \<noteq> 0" using assms(6) by (simp add: add_nonneg_eq_0_iff)
    then show ?thesis by (simp add: epsilon_func_def Let_def)
  qed
  have z: "epsilon_func rnd e0 0 = Inr e0"
    using assms(2,3,4) by (simp add: epsilon_func_def Let_def)
  from e e' le x z show ?thesis by simp
qed

theorem epsilon_func_decay_witness:
  "mono (\<lambda>x::real. x) \<and> (0::real) \<le> 1 / 10 \<and> (0::int) \<le> 0 \<and> (0::int) \<le> 100
    \<and> epsilon_func (\<lambda>x. x) (1 / 10) 0 = Inr (1 / 10)
    \<and> epsilon_func (\<lambda>x. x) (1 / 10) 100 = Inr (1 / 20)"
  using epsilon_func_decay [of "\<lambda>x. x" "1 / 10" 0 100]
  by (simp add: mono_def epsilon_func_def)



text \<open>
  C5. An iteration that completes adds 1 to \<^verbatim>\<open>num_optimal\<close> when the selected arm is
  \<^verbatim>\<open>optimal_index\<close> and leaves it unchanged otherwise, whether the arm was selected by
  exploring or by exploiting. After a completed \<^verbatim>\<open>run\<close> on a newly built \<^verbatim>\<open>Experiment\<close>,
  \<^verbatim>\<open>num_optimal\<close> is at most \<^verbatim>\<open>iterations\<close>.
\<close>

theorem num_optimal_counts_optimal_selections:
  "(iteration rnd optimal_index t s = Inr s' \<longrightarrow>
      (\<exists>sel explored g'.
         selected_event rnd (initial_epsilon (self s)) (events s) (py_gen s) t = Inr (sel, explored, g')
         \<and> num_optimal (self s') = num_optimal (self s) + (if sel = optimal_index then 1 else 0)))
   \<and> (run rnd (Experiment_init ps eps n) g h = Inr r \<longrightarrow> int (num_optimal (self r)) \<le> n)"
proof (intro conjI impI)
  assume "iteration rnd optimal_index t s = Inr s'"
  then show "\<exists>sel explored g'.
         selected_event rnd (initial_epsilon (self s)) (events s) (py_gen s) t = Inr (sel, explored, g')
         \<and> num_optimal (self s') = num_optimal (self s) + (if sel = optimal_index then 1 else 0)"
    by (rule iteration_Inr_elim) blast
next
  assume "run rnd (Experiment_init ps eps n) g h = Inr r"
  then obtain oi where n: "0 \<le> iterations (Experiment_init ps eps n)"
    and l: "loop rnd oi [0..<nat (iterations (Experiment_init ps eps n))]
           \<lparr>self = Experiment_init ps eps n, events = map RandomEvent_init (probs (Experiment_init ps eps n)),
            results = replicate (nat (iterations (Experiment_init ps eps n))) 0, py_gen = g, np_gen = h\<rparr> = Inr r"
    by (rule run_Inr_elim)
  have "(\<lambda>k u. num_optimal (self u) \<le> k) (length [0..<nat (iterations (Experiment_init ps eps n))]) r"
  proof (rule loop_invariant [OF l])
    show "num_optimal (self \<lparr>self = Experiment_init ps eps n,
            events = map RandomEvent_init (probs (Experiment_init ps eps n)),
            results = replicate (nat (iterations (Experiment_init ps eps n))) 0,
            py_gen = g, np_gen = h\<rparr>) \<le> 0"
      by (simp add: Experiment_init_def)
    show "\<And>k t u v. num_optimal (self u) \<le> k \<Longrightarrow> iteration rnd oi t u = Inr v
            \<Longrightarrow> num_optimal (self v) \<le> Suc k"
      using iteration_optimal_le by fastforce
  qed
  with n show "int (num_optimal (self r)) \<le> n" by (simp add: Experiment_init_def)
qed

theorem num_optimal_counts_optimal_selections_witness:
  "iteration (\<lambda>x. x) 0 0 sample_start = Inr sample_middle
   \<and> run (\<lambda>x. x) sample_experiment (sconst (1 / 2)) (sconst (1 / 4)) = Inr sample_final
   \<and> (\<exists>sel explored g'.
         selected_event (\<lambda>x. x) (initial_epsilon (self sample_start)) (events sample_start)
           (py_gen sample_start) 0 = Inr (sel, explored, g')
         \<and> num_optimal (self sample_middle)
             = num_optimal (self sample_start) + (if sel = 0 then 1 else 0))
   \<and> int (num_optimal (self sample_final)) \<le> 2"
  using num_optimal_counts_optimal_selections
      [of "\<lambda>x. x" 0 0 sample_start sample_middle "[1 / 2, 1 / 5]" "1 / 10" 2
          "sconst (1 / 2)" "sconst (1 / 4)" sample_final]
    sample_iteration sample_run
  by blast

text \<open>
  C6 (amended). Take two calls of \<^verbatim>\<open>run\<close> with the same \<^verbatim>\<open>probs\<close>, \<^verbatim>\<open>initial_epsilon\<close> and
  \<^verbatim>\<open>iterations\<close> and the same two generators. If one completes, so does the other, with the
  same arms (estimates, pull counts and histories), the same sequence of outcomes, and the same
  increase of each of the three counters. The counters themselves agree at the end when they
  agreed at the start, as for two newly built objects.
\<close>

theorem run_deterministic:
  assumes "probs e1 = probs e2" and "initial_epsilon e1 = initial_epsilon e2"
    and "iterations e1 = iterations e2"
    and "run rnd e1 g h = Inr s1"
  shows "\<exists>s2. run rnd e2 g h = Inr s2
    \<and> events s2 = events s1 \<and> results s2 = results s1
    \<and> int (num_explored (self s2)) - int (num_explored e2)
        = int (num_explored (self s1)) - int (num_explored e1)
    \<and> int (num_exploited (self s2)) - int (num_exploited e2)
        = int (num_exploited (self s1)) - int (num_exploited e1)
    \<and> int (num_optimal (self s2)) - int (num_optimal e2)
        = int (num_optimal (self s1)) - int (num_optimal e1)"
proof -
  from assms(4) obtain oi where a: "np_argmax (probs e1) = Inr oi" and n: "0 \<le> iterations e1"
    and l: "loop rnd oi [0..<nat (iterations e1)]
           \<lparr>self = e1, events = map RandomEvent_init (probs e1),
            results = replicate (nat (iterations e1)) 0, py_gen = g, np_gen = h\<rparr> = Inr s1"
    by (rule run_Inr_elim)
  let ?u' = "\<lparr>self = e2, events = map RandomEvent_init (probs e2),
            results = replicate (nat (iterations e2)) 0, py_gen = g, np_gen = h\<rparr>"
  from loop_counters_irrelevant [OF l, of ?u'] assms(1-3) obtain s2
    where l2: "loop rnd oi [0..<nat (iterations e1)] ?u' = Inr s2"
      and res: "events s2 = events s1" "results s2 = results s1"
      and c: "num_explored (self s2) + num_explored e1 = num_explored (self s1) + num_explored e2"
        "num_exploited (self s2) + num_exploited e1 = num_exploited (self s1) + num_exploited e2"
        "num_optimal (self s2) + num_optimal e1 = num_optimal (self s1) + num_optimal e2"
    by auto
  have "run rnd e2 g h = Inr s2"
    using a n l2 assms(1-3) by (simp add: run_def np_zeros_def Let_def)
  with res c show ?thesis by simp
qed

theorem run_deterministic_witness:
  "run (\<lambda>x. x) sample_experiment (sconst (1 / 2)) (sconst (1 / 4)) = Inr sample_final
   \<and> (\<exists>s2. run (\<lambda>x. x)
               \<lparr>probs = [1 / 2, 1 / 5], initial_epsilon = 1 / 10, iterations = 2,
                num_explored = 3, num_exploited = 4, num_optimal = 5\<rparr>
               (sconst (1 / 2)) (sconst (1 / 4)) = Inr s2
         \<and> events s2 = events sample_final
         \<and> results s2 = results sample_final
         \<and> int (num_explored (self s2)) - 3 = 0
         \<and> int (num_exploited (self s2)) - 4 = 2
         \<and> int (num_optimal (self s2)) - 5 = 2)"
  using run_deterministic
      [of sample_experiment
          "\<lparr>probs = [1 / 2, 1 / 5], initial_epsilon = 1 / 10, iterations = 2,
            num_explored = 3, num_exploited = 4, num_optimal = 5\<rparr>"
          "\<lambda>x. x" "sconst (1 / 2)" "sconst (1 / 4)" sample_final]
    sample_run
  by (simp add: Experiment_init_def)

text \<open>
  C6 as stated fails for the counters: a new \<^verbatim>\<open>Experiment\<close> and the same object after one
  call have the same configuration, and with the same generators the first ends with
  \<^verbatim>\<open>num_exploited = 1\<close> and the second with \<^verbatim>\<open>num_exploited = 2\<close>.
\<close>

theorem run_counters_counterexample:
  "probs (Experiment_init [1 / 5, 1 / 2] (1 / 10) 1)
     = probs \<lparr>probs = [1 / 5, 1 / 2], initial_epsilon = 1 / 10, iterations = 1,
              num_explored = 0, num_exploited = 1, num_optimal = 0\<rparr>
   \<and> initial_epsilon (Experiment_init [1 / 5, 1 / 2] (1 / 10) 1)
     = initial_epsilon \<lparr>probs = [1 / 5, 1 / 2], initial_epsilon = 1 / 10, iterations = 1,
              num_explored = 0, num_exploited = 1, num_optimal = 0\<rparr>
   \<and> iterations (Experiment_init [1 / 5, 1 / 2] (1 / 10) 1)
     = iterations \<lparr>probs = [1 / 5, 1 / 2], initial_epsilon = 1 / 10, iterations = 1,
              num_explored = 0, num_exploited = 1, num_optimal = 0\<rparr>
   \<and> map_sum id (num_exploited \<circ> self)
       (run (\<lambda>x. x) (Experiment_init [1 / 5, 1 / 2] (1 / 10) 1) (sconst (1 / 2)) (sconst (1 / 4)))
     = Inr 1
   \<and> map_sum id (num_exploited \<circ> self)
       (run (\<lambda>x. x) \<lparr>probs = [1 / 5, 1 / 2], initial_epsilon = 1 / 10, iterations = 1,
              num_explored = 0, num_exploited = 1, num_optimal = 0\<rparr> (sconst (1 / 2)) (sconst (1 / 4)))
     = Inr 2"
  by (simp add: run_eval)

text \<open>
  C7. With an empty \<^verbatim>\<open>probs\<close>, \<^verbatim>\<open>run\<close> raises at its first statement, the \<^verbatim>\<open>np.argmax\<close> of
  line 89, whatever the iteration count, the rounding and the generators: no arm is created
  and no iteration runs. The error is the \<^verbatim>\<open>ValueError\<close> of \<^verbatim>\<open>np.argmax\<close>.
\<close>

theorem run_empty_probs_raises:
  "probs self0 = [] \<Longrightarrow> run rnd self0 g h = Inl ValueError"
  by (simp add: run_def np_argmax_def)

theorem run_empty_probs_raises_witness:
  "probs (Experiment_init [] (1 / 10) 5000) = []
   \<and> run (\<lambda>x. x) (Experiment_init [] (1 / 10) 5000) (sconst (1 / 2)) (sconst (1 / 4)) = Inl ValueError"
  using run_empty_probs_raises
    [of "Experiment_init [] (1 / 10) 5000" "\<lambda>x. x" "sconst (1 / 2)" "sconst (1 / 4)"]
  by (simp add: Experiment_init_def)

text \<open>
  C8. With \<^verbatim>\<open>initial_epsilon = 0\<close> and every draw of \<^verbatim>\<open>random.random()\<close> in \<open>[0, 1)\<close>, a
  completed \<^verbatim>\<open>run\<close> on a newly built \<^verbatim>\<open>Experiment\<close> ends with \<^verbatim>\<open>num_explored = 0\<close>: the
  schedule is 0 in every iteration and no draw is strictly below it. The rounding is any
  function that leaves 0 unchanged.
\<close>

theorem zero_epsilon_never_explores:
  assumes "rnd 0 = 0" and "\<forall>u\<in>sset g. 0 \<le> u \<and> u < 1"
    and "run rnd (Experiment_init ps 0 n) g h = Inr s"
  shows "num_explored (self s) = 0"
proof -
  let ?e = "Experiment_init ps 0 n"
  from assms(3) obtain oi where
    l: "loop rnd oi [0..<nat (iterations ?e)]
           \<lparr>self = ?e, events = map RandomEvent_init (probs ?e),
            results = replicate (nat (iterations ?e)) 0, py_gen = g, np_gen = h\<rparr> = Inr s"
    by (rule run_Inr_elim)
  have "(\<lambda>k u. num_explored (self u) = 0 \<and> initial_epsilon (self u) = 0
                 \<and> (\<forall>x\<in>sset (py_gen u). 0 \<le> x)) (length [0..<nat (iterations ?e)]) s"
  proof (rule loop_invariant [OF l])
    show "num_explored (self \<lparr>self = ?e, events = map RandomEvent_init (probs ?e),
            results = replicate (nat (iterations ?e)) 0, py_gen = g, np_gen = h\<rparr>) = 0
          \<and> initial_epsilon (self \<lparr>self = ?e, events = map RandomEvent_init (probs ?e),
            results = replicate (nat (iterations ?e)) 0, py_gen = g, np_gen = h\<rparr>) = 0
          \<and> (\<forall>x\<in>sset (py_gen \<lparr>self = ?e, events = map RandomEvent_init (probs ?e),
            results = replicate (nat (iterations ?e)) 0, py_gen = g, np_gen = h\<rparr>). 0 \<le> x)"
      using assms(2) by (simp add: Experiment_init_def)
  next
    fix k t u v
    assume "num_explored (self u) = 0 \<and> initial_epsilon (self u) = 0 \<and> (\<forall>x\<in>sset (py_gen u). 0 \<le> x)"
      and "iteration rnd oi t u = Inr v"
    then show "num_explored (self v) = 0 \<and> initial_epsilon (self v) = 0 \<and> (\<forall>x\<in>sset (py_gen v). 0 \<le> x)"
      using iteration_zero [of rnd u oi t v] assms(1) by simp
  qed
  then show ?thesis by simp
qed

theorem zero_epsilon_never_explores_witness:
  "binary64 0 = 0 \<and> sset (sconst (0::real)) = {0} \<and> (0::real) \<le> 0 \<and> (0::real) < 1
   \<and> run binary64 (Experiment_init [1 / 2, 1 / 4] 0 2) (sconst 0) (sconst (1 / 8))
     = Inr \<lparr>self = \<lparr>probs = [1 / 2, 1 / 4], initial_epsilon = 0, iterations = 2,
                    num_explored = 0, num_exploited = 2, num_optimal = 2\<rparr>,
            events = [\<lparr>winrate = 1 / 2, estimate = 1, N = 2, history = [(1, 1), (2, 1)]\<rparr>,
                      \<lparr>winrate = 1 / 4, estimate = 0, N = 0, history = []\<rparr>],
            results = [1, 1], py_gen = sconst 0, np_gen = sconst (1 / 8)\<rparr>
   \<and> num_explored \<lparr>probs = [1 / 2, 1 / 4], initial_epsilon = 0, iterations = 2,
                    num_explored = 0, num_exploited = 2, num_optimal = 2\<rparr> = 0"
  using zero_epsilon_never_explores
    [of binary64 "sconst 0" "[1 / 2, 1 / 4]" 2 "sconst (1 / 8)"]
  by (simp add: run_eval binary64_def rne_def)

text \<open>
  C9. \<^verbatim>\<open>pull\<close> leaves the arm as it found it (all four fields); \<^verbatim>\<open>update\<close> leaves \<^verbatim>\<open>winrate\<close>
  unchanged; and after a completed \<^verbatim>\<open>run\<close> the win rates of the arms are still the
  \<^verbatim>\<open>probs\<close> they were created from.
\<close>

theorem pull_update_frame:
  "fst (snd (pull ev h)) = ev
   \<and> winrate (update rnd ev result) = winrate ev
   \<and> (run rnd e g h = Inr s \<longrightarrow> map winrate (events s) = probs e)"
proof (intro conjI impI)
  show "fst (snd (pull ev h)) = ev" by (simp add: pull_def random_random_def)
  show "winrate (update rnd ev result) = winrate ev" by (simp add: update_def Let_def)
next
  assume "run rnd e g h = Inr s"
  then obtain oi where
    l: "loop rnd oi [0..<nat (iterations e)]
           \<lparr>self = e, events = map RandomEvent_init (probs e),
            results = replicate (nat (iterations e)) 0, py_gen = g, np_gen = h\<rparr> = Inr s"
    by (rule run_Inr_elim)
  have "(\<lambda>k u. map winrate (events u) = probs e) (length [0..<nat (iterations e)]) s"
    by (rule loop_invariant [OF l]) (simp_all add: iteration_winrate RandomEvent_init_def comp_def)
  then show "map winrate (events s) = probs e" .
qed

theorem pull_update_frame_witness:
  "run (\<lambda>x. x) sample_experiment (sconst (1 / 2)) (sconst (1 / 4)) = Inr sample_final
   \<and> fst (snd (pull (RandomEvent_init (1 / 2)) (sconst (1 / 4)))) = RandomEvent_init (1 / 2)
   \<and> winrate (update (\<lambda>x. x) (RandomEvent_init (1 / 2)) True) = winrate (RandomEvent_init (1 / 2))
   \<and> map winrate (events sample_final) = probs sample_experiment"
  using pull_update_frame
      [of "RandomEvent_init (1 / 2)" "sconst (1 / 4)" "\<lambda>x. x" True
          sample_experiment "sconst (1 / 2)" sample_final]
    sample_run
  by blast

text \<open>
  C10. An iteration that completes calls \<^verbatim>\<open>update\<close> on exactly one arm and leaves the others
  as they were. After a completed \<^verbatim>\<open>run\<close> the pull counts \<^verbatim>\<open>N\<close> of the arms add up to
  \<^verbatim>\<open>iterations\<close>, and for every arm the history has \<^verbatim>\<open>N\<close> entries, entry \<open>k\<close> (from 0) having
  first component \<open>k + 1\<close>. The arms are created in \<^verbatim>\<open>run\<close>, so this holds for any
  \<^verbatim>\<open>Experiment\<close>, new or not.
\<close>

theorem one_update_per_iteration:
  "(iteration rnd oi t u = Inr v \<longrightarrow>
      (\<exists>sel result. sel < length (events u)
         \<and> events v = (events u)[sel := update rnd (events u ! sel) result]))
   \<and> (run rnd e g h = Inr s \<longrightarrow>
        int (sum_list (map N (events s))) = iterations e
        \<and> (\<forall>ev\<in>set (events s).
              length (history ev) = N ev
              \<and> (\<forall>k < length (history ev). fst (history ev ! k) = k + 1)))"
proof (intro conjI impI)
  assume "iteration rnd oi t u = Inr v"
  then show "\<exists>sel result. sel < length (events u)
         \<and> events v = (events u)[sel := update rnd (events u ! sel) result]"
    by (rule iteration_Inr_elim) blast
next
  assume r: "run rnd e g h = Inr s"
  then obtain oi' where n: "0 \<le> iterations e"
    and l: "loop rnd oi' [0..<nat (iterations e)]
           \<lparr>self = e, events = map RandomEvent_init (probs e),
            results = replicate (nat (iterations e)) 0, py_gen = g, np_gen = h\<rparr> = Inr s"
    by (rule run_Inr_elim)
  have z: "sum_list (map N (map RandomEvent_init ps)) = 0" for ps
    by (induction ps) (simp_all add: RandomEvent_init_def)
  have "(\<lambda>k u. sum_list (map N (events u)) = k) (length [0..<nat (iterations e)]) s"
    by (rule loop_invariant [OF l]) (simp_all add: z iteration_pulls RandomEvent_init_def)
  with n show "int (sum_list (map N (events s))) = iterations e" by simp
  have inv: "(\<lambda>k u. \<forall>ev\<in>set (events u). map fst (history ev) = [1..<Suc (N ev)])
          (length [0..<nat (iterations e)]) s"
  proof (rule loop_invariant [OF l])
    show "\<forall>ev\<in>set (events \<lparr>self = e, events = map RandomEvent_init (probs e),
            results = replicate (nat (iterations e)) 0, py_gen = g, np_gen = h\<rparr>).
            map fst (history ev) = [1..<Suc (N ev)]"
      by (auto simp: RandomEvent_init_def)
  next
    fix k t u v
    assume "\<forall>ev\<in>set (events u). map fst (history ev) = [1..<Suc (N ev)]"
      and "iteration rnd oi' t u = Inr v"
    then show "\<forall>ev\<in>set (events v). map fst (history ev) = [1..<Suc (N ev)]"
      using iteration_history by blast
  qed
  show "\<forall>ev\<in>set (events s).
              length (history ev) = N ev
              \<and> (\<forall>k < length (history ev). fst (history ev ! k) = k + 1)"
  proof (intro ballI conjI allI impI)
    fix ev assume "ev \<in> set (events s)"
    with inv have m: "map fst (history ev) = [1..<Suc (N ev)]" by blast
    then have "length (map fst (history ev)) = length [1..<Suc (N ev)]" by simp
    then show len: "length (history ev) = N ev" by simp
    fix k assume k: "k < length (history ev)"
    then have "fst (history ev ! k) = map fst (history ev) ! k" by simp
    also have "\<dots> = [1..<Suc (N ev)] ! k" by (simp only: m)
    also have "\<dots> = 1 + k" by (rule nth_upt) (use k len in simp)
    finally show "fst (history ev ! k) = k + 1" by simp
  qed
qed

theorem one_update_per_iteration_witness:
  "iteration (\<lambda>x. x) 0 0 sample_start = Inr sample_middle
   \<and> run (\<lambda>x. x) sample_experiment (sconst (1 / 2)) (sconst (1 / 4)) = Inr sample_final
   \<and> (\<exists>sel result. sel < length (events sample_start)
         \<and> events sample_middle
             = (events sample_start)[sel := update (\<lambda>x. x) (events sample_start ! sel) result])
   \<and> int (sum_list (map N (events sample_final))) = iterations sample_experiment
   \<and> length (history (events sample_final ! 0)) = N (events sample_final ! 0)
   \<and> fst (history (events sample_final ! 0) ! 0) = 0 + 1
   \<and> fst (history (events sample_final ! 0) ! 1) = 1 + 1
   \<and> length (history (events sample_final ! 1)) = N (events sample_final ! 1)"
proof -
  have "\<exists>sel result. sel < length (events sample_start)
         \<and> events sample_middle
             = (events sample_start)[sel := update (\<lambda>x. x) (events sample_start ! sel) result]"
    using one_update_per_iteration [of "\<lambda>x. x" 0 0 sample_start sample_middle] sample_iteration
    by blast
  moreover have "int (sum_list (map N (events sample_final))) = iterations sample_experiment
      \<and> (\<forall>ev\<in>set (events sample_final).
            length (history ev) = N ev
            \<and> (\<forall>k < length (history ev). fst (history ev ! k) = k + 1))"
    using one_update_per_iteration
        [of "\<lambda>x. x" 0 0 sample_start sample_middle sample_experiment
            "sconst (1 / 2)" "sconst (1 / 4)" sample_final]
      sample_run
    by blast
  ultimately show ?thesis using sample_iteration sample_run by simp
qed

end
